theory Spec2Isabelle
  imports Main "HOL-Library.Word" "HOL-Library.AList"
begin

unbundle bit_operations_syntax

section \<open>The serdew (de)serialization context\<close>

text \<open>
  A shallow embedding of \<^verbatim>\<open>serdew.go\<close>. Go's \<^verbatim>\<open>int\<close> is a mathematical
  integer here; the fixed-width numeric types are integers kept in the range of their
  type by \<open>wrapT\<close>. A byte is an \<open>8 word\<close>, a Go string is its byte sequence. A Go
  slice is the list of its visible elements together with the rest of its backing array up
  to the capacity. Every panic of the source is a value \<open>Inl p\<close>; a call that returns
  yields \<open>Inr\<close> of the updated context, the updated destination and the returned
  \<^verbatim>\<open>error\<close> (\<open>None\<close> for \<^verbatim>\<open>nil\<close>).
\<close>

type_synonym byte = "8 word"

datatype error = errUnexpectedEnd | ErrorValue string

datatype panic =
    AbortNilError
  | IncompatibleSystem
  | SliceBoundsOutOfRange
  | IndexOutOfRange
  | MakeSliceLenOutOfRange
  | MakeSliceCapOutOfRange
  | IllTyped

type_synonym 'a outcome = "panic + 'a"

text \<open>The two marker types \<^verbatim>\<open>Ser struct{ _ int8 }\<close> and \<^verbatim>\<open>De struct{ _ int16 }\<close>.\<close>

datatype SerDe = Ser | De

fun sizeof_SerDe :: "SerDe \<Rightarrow> nat" where
  "sizeof_SerDe Ser = 1"
| "sizeof_SerDe De = 2"

text \<open>
  \<^verbatim>\<open>Ctx[S]\<close>: the type parameter \<open>mode\<close>, the slice \<^verbatim>\<open>bytes\<close> (its visible
  part \<open>bytes\<close> and the unused capacity \<open>spare\<close> behind it) and the stored error.
\<close>

record Ctx =
  mode :: SerDe
  bytes :: "byte list"
  spare :: "byte list"
  err :: "error option"

datatype 'a slice = GoSlice (elems: "'a list") (room: "'a list")

definition len :: "'a slice \<Rightarrow> int" where
  "len s = int (length (elems s))"

definition cap :: "'a slice \<Rightarrow> int" where
  "cap s = int (length (elems s) + length (room s))"

definition nil_slice :: "'a slice" where
  "nil_slice = GoSlice [] []"

text \<open>
  \<^verbatim>\<open>make([]T, n)\<close>: \<open>n\<close> zero values, capacity \<open>n\<close>. The Go runtime panics with
  \<^verbatim>\<open>makeslice: len out of range\<close> when \<open>n\<close> is negative or \<open>n\<close> elements of \<open>T\<close> take more
  than it is able to allocate. The runtime is not part of the repository: \<open>maxLen\<close>, a
  parameter, is the largest length it accepts for the element type. Running out of memory
  below that limit is not modelled.
\<close>

definition make_slice :: "int \<Rightarrow> 'a \<Rightarrow> int \<Rightarrow> 'a slice outcome" where
  "make_slice maxLen zero n =
     (if n < 0 \<or> maxLen < n then Inl MakeSliceLenOutOfRange
      else Inr (GoSlice (replicate (nat n) zero) []))"

text \<open>The builtin \<^verbatim>\<open>copy(dst, src)\<close> on the visible elements: the new content of \<open>dst\<close>.\<close>

definition copy :: "'a list \<Rightarrow> 'a list \<Rightarrow> 'a list" where
  "copy dst src = take (length dst) src @ drop (length src) dst"

definition NewSerializer :: "Ctx" where
  "NewSerializer = \<lparr>mode = Ser, bytes = [], spare = [], err = None\<rparr>"

text \<open>\<^verbatim>\<open>make([]byte, 0, cap)\<close> panics in the same way on a capacity out of range.\<close>

definition NewSerializerWithCapacity :: "int \<Rightarrow> int \<Rightarrow> Ctx outcome" where
  "NewSerializerWithCapacity maxLen c =
     (if c < 0 \<or> maxLen < c then Inl MakeSliceCapOutOfRange
      else Inr \<lparr>mode = Ser, bytes = [], spare = replicate (nat c) 0, err = None\<rparr>)"

definition NewSerializerWithBacking :: "byte slice \<Rightarrow> Ctx" where
  "NewSerializerWithBacking b = \<lparr>mode = Ser, bytes = [], spare = elems b @ room b, err = None\<rparr>"

definition NewDeserializer :: "byte slice \<Rightarrow> Ctx" where
  "NewDeserializer b = \<lparr>mode = De, bytes = elems b, spare = room b, err = None\<rparr>"

definition sizeEq_SerDe :: "SerDe \<Rightarrow> SerDe \<Rightarrow> bool" where
  "sizeEq_SerDe s t = (sizeof_SerDe s = sizeof_SerDe t)"

definition IsSerializer :: "Ctx \<Rightarrow> bool" where
  "IsSerializer c = sizeEq_SerDe (mode c) Ser"

definition IsDeserializer :: "Ctx \<Rightarrow> bool" where
  "IsDeserializer c = sizeEq_SerDe (mode c) De"

definition Error :: "Ctx \<Rightarrow> error option" where
  "Error ctx = err ctx"

text \<open>\<^verbatim>\<open>Abort\<close>: panics on a nil error, stores the error if none is stored, returns the stored one.\<close>

definition Abort :: "Ctx \<Rightarrow> error option \<Rightarrow> (Ctx \<times> error option) outcome" where
  "Abort c e =
     (case e of
        None \<Rightarrow> Inl AbortNilError
      | Some x \<Rightarrow>
          (let c' = (if err c = None then c\<lparr>err := Some x\<rparr> else c)
           in Inr (c', err c')))"

text \<open>
  \<^verbatim>\<open>Raw(n)\<close>. The result holds the window \<^verbatim>\<open>bytes\<close>; for a serializer the window
  is the last \<open>n\<close> bytes of the extended buffer, which the caller fills through
  \<open>store_window\<close>. The slice expressions panic when their bounds are out of order.
  In the serializing branch the sum \<^verbatim>\<open>n+len(ctx.bytes)\<close> is taken in the integers and the
  buffer grows without limit: the output of a serializer is taken to stay below what a Go
  program can hold in memory, where the sum does not wrap around and \<^verbatim>\<open>make\<close> does not
  panic. The deserializing branch allocates nothing and adds nothing.
\<close>

definition Raw :: "Ctx \<Rightarrow> int \<Rightarrow> (Ctx \<times> byte list \<times> error option) outcome" where
  "Raw ctx n =
     (case err ctx of
        Some e \<Rightarrow> Inr (ctx, [], Some e)
      | None \<Rightarrow>
          if IsSerializer ctx then
            (let l = int (length (bytes ctx));
                 ctx1 = (if n + l > l + int (length (spare ctx))
                         then ctx\<lparr>bytes := copy (replicate (nat l) 0) (bytes ctx),
                                  spare := replicate (nat (n + l) - nat l) 0\<rparr>
                         else ctx)
             in if n + l < l then Inl SliceBoundsOutOfRange
                else Inr (ctx1\<lparr>bytes := bytes ctx1 @ take (nat n) (spare ctx1),
                               spare := drop (nat n) (spare ctx1)\<rparr>,
                          take (nat n) (spare ctx1), None))
          else if n > int (length (bytes ctx)) then
            (case Abort ctx (Some errUnexpectedEnd) of
               Inl p \<Rightarrow> Inl p
             | Inr (ctx', e) \<Rightarrow> Inr (ctx', [], e))
          else if n < 0 then Inl SliceBoundsOutOfRange
          else Inr (ctx\<lparr>bytes := drop (nat n) (bytes ctx)\<rparr>, take (nat n) (bytes ctx), None))"

text \<open>Writing through a window handed out by a serializer's \<open>Raw\<close>: it aliases the buffer's end.\<close>

definition store_window :: "Ctx \<Rightarrow> byte list \<Rightarrow> Ctx" where
  "store_window ctx w = ctx\<lparr>bytes := take (length (bytes ctx) - length w) (bytes ctx) @ w\<rparr>"

section \<open>Numeric types\<close>

text \<open>
  The type arguments of \<^verbatim>\<open>Number\<close> and \<^verbatim>\<open>integer\<close>, with \<^verbatim>\<open>unsafe.Sizeof\<close> and
  \<^verbatim>\<open>unsafe.Alignof\<close> as the gc compiler gives them on a 64-bit platform (amd64, arm64).
  A value of an integer type is the integer itself; a value of a floating-point type is
  its IEEE-754 bit pattern read as an unsigned integer, which is all the source looks at.
\<close>

datatype numty =
    TInt | TInt8 | TInt16 | TInt32 | TInt64
  | TUint | TUint8 | TUint16 | TUint32 | TUint64 | TUintptr
  | TFloat32 | TFloat64

fun sizeOf :: "numty \<Rightarrow> nat" where
  "sizeOf TInt = 8"
| "sizeOf TInt8 = 1"
| "sizeOf TInt16 = 2"
| "sizeOf TInt32 = 4"
| "sizeOf TInt64 = 8"
| "sizeOf TUint = 8"
| "sizeOf TUint8 = 1"
| "sizeOf TUint16 = 2"
| "sizeOf TUint32 = 4"
| "sizeOf TUint64 = 8"
| "sizeOf TUintptr = 8"
| "sizeOf TFloat32 = 4"
| "sizeOf TFloat64 = 8"

definition alignOf :: "numty \<Rightarrow> nat" where
  "alignOf T = sizeOf T"

fun is_signed :: "numty \<Rightarrow> bool" where
  "is_signed TInt = True"
| "is_signed TInt8 = True"
| "is_signed TInt16 = True"
| "is_signed TInt32 = True"
| "is_signed TInt64 = True"
| "is_signed _ = False"

text \<open>Conversion to \<open>T\<close>, and the result of arithmetic in \<open>T\<close>: two's-complement wrap-around.\<close>

definition wrapT :: "numty \<Rightarrow> int \<Rightarrow> int" where
  "wrapT T x =
     (if is_signed T then signed_take_bit (8 * sizeOf T - 1) x
      else take_bit (8 * sizeOf T) x)"

definition in_range :: "numty \<Rightarrow> int \<Rightarrow> bool" where
  "in_range T x =
     (if is_signed T then - (2 ^ (8 * sizeOf T - 1)) \<le> x \<and> x < 2 ^ (8 * sizeOf T - 1)
      else 0 \<le> x \<and> x < 2 ^ (8 * sizeOf T))"

definition sizeEq :: "numty \<Rightarrow> numty \<Rightarrow> bool" where
  "sizeEq T U = (sizeOf T = sizeOf U)"

definition alignCompat :: "numty \<Rightarrow> numty \<Rightarrow> bool" where
  "alignCompat T U = (alignOf T \<ge> alignOf U \<and> alignOf T mod alignOf U = 0)"

definition canTransmute :: "numty \<Rightarrow> numty \<Rightarrow> bool" where
  "canTransmute T U = (sizeEq T U \<and> alignCompat T U)"

text \<open>
  \<^verbatim>\<open>unsafeTransmutePtr[T, U]\<close>: the value of type \<open>U\<close> seen through the cast pointer, that
  is, the same bits read at type \<open>U\<close>.
\<close>

definition unsafeTransmutePtr :: "numty \<Rightarrow> numty \<Rightarrow> int \<Rightarrow> int outcome" where
  "unsafeTransmutePtr T U v =
     (if canTransmute T U then Inr (wrapT U v) else Inl IncompatibleSystem)"

section \<open>The numeric codec\<close>

text \<open>The serializing loop \<^verbatim>\<open>bytes[i] = byte(writeValue >> (i << 3))\<close>.\<close>

definition write_loop :: "int \<Rightarrow> byte list \<Rightarrow> byte list" where
  "write_loop writeValue bs =
     fold (\<lambda>i w. w[i := word_of_int (drop_bit (push_bit 3 i) writeValue)]) [0..<length bs] bs"

text \<open>The deserializing loop \<^verbatim>\<open>readValue |= T(b) << (i << 3)\<close>.\<close>

fun read_loop :: "numty \<Rightarrow> nat \<Rightarrow> byte list \<Rightarrow> int \<Rightarrow> int" where
  "read_loop T i [] readValue = readValue"
| "read_loop T i (b # bs) readValue =
     read_loop T (Suc i) bs (readValue OR wrapT T (push_bit (push_bit 3 i) (wrapT T (uint b))))"

definition integer :: "numty \<Rightarrow> Ctx \<Rightarrow> int \<Rightarrow> (Ctx \<times> int \<times> error option) outcome" where
  "integer T ctx val =
     (case Raw ctx (int (sizeOf T)) of
        Inl p \<Rightarrow> Inl p
      | Inr (ctx1, bs, Some e) \<Rightarrow> Inr (ctx1, val, Some e)
      | Inr (ctx1, bs, None) \<Rightarrow>
          if IsSerializer ctx1 then Inr (store_window ctx1 (write_loop val bs), val, None)
          else Inr (ctx1, read_loop T 0 bs 0, None))"

text \<open>
  One branch of \<^verbatim>\<open>Number\<close>: \<^verbatim>\<open>integer(ctx, unsafeTransmutePtr[T, U](value))\<close>. What
  \<^verbatim>\<open>integer\<close> leaves behind the pointer is the new value, read at type \<open>T\<close>.
\<close>

definition integer_as :: "numty \<Rightarrow> numty \<Rightarrow> Ctx \<Rightarrow> int \<Rightarrow> (Ctx \<times> int \<times> error option) outcome" where
  "integer_as T U ctx val =
     (case unsafeTransmutePtr T U val of
        Inl p \<Rightarrow> Inl p
      | Inr u \<Rightarrow>
          (case integer U ctx u of
             Inl p \<Rightarrow> Inl p
           | Inr (ctx1, u1, e) \<Rightarrow> Inr (ctx1, wrapT T u1, e)))"

definition Number :: "numty \<Rightarrow> Ctx \<Rightarrow> int \<Rightarrow> (Ctx \<times> int \<times> error option) outcome" where
  "Number T ctx val =
     (if canTransmute T TUint8 then integer_as T TUint8 ctx val
      else if canTransmute T TUint16 then integer_as T TUint16 ctx val
      else if canTransmute T TUint32 then integer_as T TUint32 ctx val
      else if canTransmute T TUint64 then integer_as T TUint64 ctx val
      else if canTransmute T TUint then integer_as T TUint ctx val
      else if canTransmute T TUintptr then integer_as T TUintptr ctx val
      else Inl IncompatibleSystem)"

section \<open>Strings and byte slices\<close>

definition String :: "Ctx \<Rightarrow> byte list \<Rightarrow> (Ctx \<times> byte list \<times> error option) outcome" where
  "String ctx str =
     (case integer TInt ctx (int (length str)) of
        Inl p \<Rightarrow> Inl p
      | Inr (ctx1, n, Some e) \<Rightarrow> Inr (ctx1, str, Some e)
      | Inr (ctx1, n, None) \<Rightarrow>
          (case Raw ctx1 n of
             Inl p \<Rightarrow> Inl p
           | Inr (ctx2, bs, Some e) \<Rightarrow> Inr (ctx2, str, Some e)
           | Inr (ctx2, bs, None) \<Rightarrow>
               if IsSerializer ctx2 then Inr (store_window ctx2 (copy bs str), str, None)
               else Inr (ctx2, bs, None)))"

text \<open>
  \<^verbatim>\<open>Bytes\<close>. When deserializing, \<^verbatim>\<open>copy((*bytes)[:len(ctxBytes)], ctxBytes)\<close> writes into
  the backing array of the destination; the destination keeps its length.
  \<^verbatim>\<open>make([]byte, len(ctxBytes))\<close> asks for as many bytes as the window \<^verbatim>\<open>ctxBytes\<close>
  holds, a part of the input buffer: the length of a byte slice that exists is never out
  of range.
\<close>

definition Bytes :: "Ctx \<Rightarrow> byte slice \<Rightarrow> (Ctx \<times> byte slice \<times> error option) outcome" where
  "Bytes ctx b =
     (case integer TInt ctx (len b) of
        Inl p \<Rightarrow> Inl p
      | Inr (ctx1, n, Some e) \<Rightarrow> Inr (ctx1, b, Some e)
      | Inr (ctx1, n, None) \<Rightarrow>
          (case Raw ctx1 n of
             Inl p \<Rightarrow> Inl p
           | Inr (ctx2, ctxBytes, Some e) \<Rightarrow> Inr (ctx2, b, Some e)
           | Inr (ctx2, ctxBytes, None) \<Rightarrow>
               if IsSerializer ctx2 then Inr (store_window ctx2 (copy ctxBytes (elems b)), b, None)
               else
                 (let b1 = (if cap b < int (length ctxBytes)
                            then GoSlice (replicate (length ctxBytes) 0) [] else b);
                      backing = elems b1 @ room b1;
                      backing' = copy (take (length ctxBytes) backing) ctxBytes
                                 @ drop (length ctxBytes) backing
                  in Inr (ctx2,
                          GoSlice (take (length (elems b1)) backing')
                                  (drop (length (elems b1)) backing'),
                          None))))"

section \<open>Slices, maps and external binary values\<close>

type_synonym 'a codec = "Ctx \<Rightarrow> 'a \<Rightarrow> (Ctx \<times> 'a \<times> error option) outcome"

text \<open>
  The loop \<^verbatim>\<open>for i := range length\<close> of \<^verbatim>\<open>Slice\<close>, at index \<open>i\<close> with \<open>k\<close>
  iterations to go. The element codec works on \<^verbatim>\<open>&(*slice)[i]\<close>, so what it leaves in
  the element stays there, also when it returns an error.
\<close>

fun Slice_loop :: "'a codec \<Rightarrow> Ctx \<Rightarrow> 'a slice \<Rightarrow> nat \<Rightarrow> nat \<Rightarrow> (Ctx \<times> 'a slice \<times> error option) outcome" where
  "Slice_loop f ctx s i 0 = Inr (ctx, s, None)"
| "Slice_loop f ctx s i (Suc k) =
     (if i < length (elems s) then
        (case f ctx (elems s ! i) of
           Inl p \<Rightarrow> Inl p
         | Inr (ctx1, x, Some e) \<Rightarrow> Inr (ctx1, GoSlice ((elems s)[i := x]) (room s), Some e)
         | Inr (ctx1, x, None) \<Rightarrow>
             Slice_loop f ctx1 (GoSlice ((elems s)[i := x]) (room s)) (Suc i) k)
      else Inl IndexOutOfRange)"

text \<open>
  \<^verbatim>\<open>Slice\<close>; \<open>zero\<close> is the zero value of the element type and \<open>maxLen\<close> the largest
  length \<^verbatim>\<open>make([]T, length)\<close> accepts for it. The count handed to \<^verbatim>\<open>make\<close> comes off the
  wire when deserializing.
\<close>

definition Slice :: "int \<Rightarrow> 'a \<Rightarrow> 'a codec \<Rightarrow> Ctx \<Rightarrow> 'a slice \<Rightarrow> (Ctx \<times> 'a slice \<times> error option) outcome" where
  "Slice maxLen zero f ctx s =
     (case integer TInt ctx (len s) of
        Inl p \<Rightarrow> Inl p
      | Inr (ctx1, n, Some e) \<Rightarrow> Inr (ctx1, s, Some e)
      | Inr (ctx1, n, None) \<Rightarrow>
          if len s < n then
            (case make_slice maxLen zero n of
               Inl p \<Rightarrow> Inl p
             | Inr newSlice \<Rightarrow>
                 Slice_loop f ctx1
                   (GoSlice (copy (elems newSlice) (elems s)) (room newSlice)) 0 (nat n))
          else Slice_loop f ctx1 s 0 (nat n))"

text \<open>
  A Go map is \<open>None\<close> when it is nil and otherwise the list of its entries, with distinct
  keys; the order of the list is the order in which this run's \<^verbatim>\<open>range\<close> yields the
  entries, which Go leaves unspecified. \<^verbatim>\<open>(*m)[k] = v\<close> is \<open>AList.update\<close>.
  \<^verbatim>\<open>make(map[K]V, length)\<close> takes its second argument as a hint for the initial size and
  does not panic on it.
\<close>

type_synonym ('k, 'v) gomap = "('k \<times> 'v) list option"

definition entries :: "('k, 'v) gomap \<Rightarrow> ('k \<times> 'v) list" where
  "entries m = (case m of None \<Rightarrow> [] | Some kvs \<Rightarrow> kvs)"

fun Map_ser_loop :: "'k codec \<Rightarrow> 'v codec \<Rightarrow> Ctx \<Rightarrow> ('k \<times> 'v) list \<Rightarrow> (Ctx \<times> error option) outcome" where
  "Map_ser_loop fK fV ctx [] = Inr (ctx, None)"
| "Map_ser_loop fK fV ctx ((k, v) # kvs) =
     (case fK ctx k of
        Inl p \<Rightarrow> Inl p
      | Inr (ctx1, k1, Some e) \<Rightarrow> Inr (ctx1, Some e)
      | Inr (ctx1, k1, None) \<Rightarrow>
          (case fV ctx1 v of
             Inl p \<Rightarrow> Inl p
           | Inr (ctx2, v1, Some e) \<Rightarrow> Inr (ctx2, Some e)
           | Inr (ctx2, v1, None) \<Rightarrow> Map_ser_loop fK fV ctx2 kvs))"

fun Map_de_loop :: "'k \<Rightarrow> 'v \<Rightarrow> 'k codec \<Rightarrow> 'v codec \<Rightarrow> Ctx \<Rightarrow> ('k \<times> 'v) list \<Rightarrow> nat \<Rightarrow>
    (Ctx \<times> ('k \<times> 'v) list \<times> error option) outcome" where
  "Map_de_loop zeroK zeroV fK fV ctx kvs 0 = Inr (ctx, kvs, None)"
| "Map_de_loop zeroK zeroV fK fV ctx kvs (Suc n) =
     (case fK ctx zeroK of
        Inl p \<Rightarrow> Inl p
      | Inr (ctx1, k, Some e) \<Rightarrow> Inr (ctx1, kvs, Some e)
      | Inr (ctx1, k, None) \<Rightarrow>
          (case fV ctx1 zeroV of
             Inl p \<Rightarrow> Inl p
           | Inr (ctx2, v, Some e) \<Rightarrow> Inr (ctx2, kvs, Some e)
           | Inr (ctx2, v, None) \<Rightarrow>
               Map_de_loop zeroK zeroV fK fV ctx2 (AList.update k v kvs) n))"

definition Map :: "'k \<Rightarrow> 'v \<Rightarrow> 'k codec \<Rightarrow> 'v codec \<Rightarrow> Ctx \<Rightarrow> ('k, 'v) gomap \<Rightarrow>
    (Ctx \<times> ('k, 'v) gomap \<times> error option) outcome" where
  "Map zeroK zeroV fK fV ctx m =
     (case integer TInt ctx (int (length (entries m))) of
        Inl p \<Rightarrow> Inl p
      | Inr (ctx1, n, Some e) \<Rightarrow> Inr (ctx1, m, Some e)
      | Inr (ctx1, n, None) \<Rightarrow>
          if IsSerializer ctx1 then
            (case Map_ser_loop fK fV ctx1 (entries m) of
               Inl p \<Rightarrow> Inl p
             | Inr (ctx2, e) \<Rightarrow> Inr (ctx2, m, e))
          else
            (let m1 = (if m = None then Some [] else m)
             in case Map_de_loop zeroK zeroV fK fV ctx1 (entries m1) (nat n) of
                  Inl p \<Rightarrow> Inl p
                | Inr (ctx2, kvs, e) \<Rightarrow> Inr (ctx2, Some kvs, e)))"

text \<open>
  \<^verbatim>\<open>Binary\<close>. The capability of the value's type is the pair of its \<^verbatim>\<open>MarshalBinary\<close> and
  \<^verbatim>\<open>UnmarshalBinary\<close> methods; the second one updates the value it is called on. Both
  calls to \<^verbatim>\<open>integer\<close> drop the returned error.
\<close>

definition Binary :: "('v \<Rightarrow> byte list \<times> error option) \<Rightarrow> ('v \<Rightarrow> byte list \<Rightarrow> 'v \<times> error option) \<Rightarrow>
    Ctx \<Rightarrow> 'v \<Rightarrow> (Ctx \<times> 'v \<times> error option) outcome" where
  "Binary MarshalBinary UnmarshalBinary ctx val =
     (if IsSerializer ctx then
        (case MarshalBinary val of
           (data, Some e) \<Rightarrow>
             (case Abort ctx (Some e) of
                Inl p \<Rightarrow> Inl p
              | Inr (ctx1, e1) \<Rightarrow> Inr (ctx1, val, e1))
         | (data, None) \<Rightarrow>
             (case integer TInt ctx (int (length data)) of
                Inl p \<Rightarrow> Inl p
              | Inr (ctx1, n, ignored) \<Rightarrow>
                  (case Raw ctx1 n of
                     Inl p \<Rightarrow> Inl p
                   | Inr (ctx2, bs, Some e) \<Rightarrow> Inr (ctx2, val, Some e)
                   | Inr (ctx2, bs, None) \<Rightarrow>
                       Inr (store_window ctx2 (copy bs data), val, None))))
      else
        (case integer TInt ctx 0 of
           Inl p \<Rightarrow> Inl p
         | Inr (ctx1, n, ignored) \<Rightarrow>
             (case Raw ctx1 n of
                Inl p \<Rightarrow> Inl p
              | Inr (ctx2, bs, Some e) \<Rightarrow> Inr (ctx2, val, Some e)
              | Inr (ctx2, bs, None) \<Rightarrow>
                  (case UnmarshalBinary val bs of
                     (val1, Some e) \<Rightarrow> Inr (ctx2, val1, Some e)
                   | (val1, None) \<Rightarrow> Inr (ctx2, val1, None)))))"

section \<open>The wire format\<close>

text \<open>
  The little-endian layout of an integer on \<open>n\<close> bytes, byte \<open>i\<close> being
  \<open>(value >> (8 * i)) & 0xFF\<close>, and the unsigned value a byte string denotes when it is
  read as a little-endian number.
\<close>

definition le_bytes :: "nat \<Rightarrow> int \<Rightarrow> byte list" where
  "le_bytes n v = map (\<lambda>i. word_of_int (drop_bit (8 * i) v)) [0..<n]"

definition le_value :: "byte list \<Rightarrow> nat" where
  "le_value bs = foldr (\<lambda>b a. unat b + 256 * a) bs 0"

text \<open>\<open>appended ctx out ctx'\<close>: \<open>ctx'\<close> is \<open>ctx\<close> with \<open>out\<close> written behind its bytes.\<close>

definition appended :: "Ctx \<Rightarrow> byte list \<Rightarrow> Ctx \<Rightarrow> bool" where
  "appended ctx out ctx' \<longleftrightarrow>
     mode ctx' = mode ctx \<and> err ctx' = err ctx \<and> bytes ctx' = bytes ctx @ out"

text \<open>The stored error after a call, \<open>None\<close> when the call panicked.\<close>

definition error_after :: "(Ctx \<times> 'a) outcome \<Rightarrow> error option option" where
  "error_after r = (case r of Inl p \<Rightarrow> None | Inr (ctx', x) \<Rightarrow> Some (Error ctx'))"

text \<open>The unsigned type of the same size, the one \<open>Number\<close> hands to \<open>integer\<close>.\<close>

definition uint_of :: "numty \<Rightarrow> numty" where
  "uint_of T = (if sizeOf T = 1 then TUint8 else if sizeOf T = 2 then TUint16
                else if sizeOf T = 4 then TUint32 else TUint64)"

section \<open>Values built from the supported fields\<close>

text \<open>
  The library is generic; the values a caller can serialize with it are described by a
  schema: a number of one of the numeric types, a string, a byte slice, a slice of values
  of one schema, a map from keys of one schema to values of another, or a struct whose
  fields are serialized one after the other, which is how \<^verbatim>\<open>SerdewPerson\<close> in
  \<^verbatim>\<open>example/main.go\<close> does it. \<open>val\<close> is the universe of these values. The constructor
  \<open>IllTyped\<close> of \<open>panic\<close> marks a value that does not have the shape of its schema, which
  Go's type checker rules out.
\<close>

datatype val =
    VNum int
  | VStr "byte list"
  | VBytes "byte slice"
  | VSlice "val slice"
  | VMap "(val \<times> val) list option"
  | VStruct "val list"





















section \<open>Basic facts\<close>

lemma IsSerializer_iff: "IsSerializer c \<longleftrightarrow> mode c = Ser"
  by (cases "mode c") (simp_all add: IsSerializer_def sizeEq_SerDe_def)

lemma IsDeserializer_iff: "IsDeserializer c \<longleftrightarrow> mode c = De"
  by (cases "mode c") (simp_all add: IsDeserializer_def sizeEq_SerDe_def)

lemma sizeOf_pos: "0 < sizeOf T"
  by (cases T) simp_all

lemma wrapT_wrapT: "sizeOf T = sizeOf U \<Longrightarrow> wrapT T (wrapT U v) = wrapT T v"
  using sizeOf_pos [of U]
  by (auto simp add: wrapT_def signed_take_bit_take_bit take_bit_signed_take_bit)

lemma wrapT_in_range: "in_range T v \<Longrightarrow> wrapT T v = v"
  using sizeOf_pos [of T]
  apply (auto simp add: wrapT_def in_range_def take_bit_int_eq_self)
  apply (rule signed_take_bit_int_eq_self)
   apply auto
  done

lemma in_range_wrapT: "in_range T (wrapT T v)"
  using sizeOf_pos [of T] signed_take_bit_int_less_exp [of "8 * sizeOf T - 1" v]
    signed_take_bit_int_greater_eq_minus_exp [of "8 * sizeOf T - 1" v]
  by (auto simp add: wrapT_def in_range_def)

lemma wrapT_take_bit: "wrapT T (take_bit (8 * sizeOf T) v) = wrapT T v"
  using sizeOf_pos [of T]
  by (auto simp add: wrapT_def signed_take_bit_take_bit)

lemma wrapT_0: "wrapT T 0 = 0"
  by (simp add: wrapT_def)

lemma canTransmute_cases:
  "canTransmute T TUint8 \<or> canTransmute T TUint16 \<or> canTransmute T TUint32 \<or> canTransmute T TUint64"
  by (cases T) (simp_all add: canTransmute_def sizeEq_def alignCompat_def alignOf_def)

subsection \<open>A poisoned context\<close>

lemma Raw_poisoned: "err ctx = Some e \<Longrightarrow> Raw ctx n = Inr (ctx, [], Some e)"
  by (simp add: Raw_def)

lemma Abort_poisoned: "err ctx = Some e \<Longrightarrow> Abort ctx (Some x) = Inr (ctx, Some e)"
  by (simp add: Abort_def)

lemma integer_poisoned: "err ctx = Some e \<Longrightarrow> integer T ctx v = Inr (ctx, v, Some e)"
  by (simp add: integer_def Raw_poisoned)

lemma integer_as_poisoned:
  "err ctx = Some e \<Longrightarrow> canTransmute T U \<Longrightarrow> integer_as T U ctx v = Inr (ctx, wrapT T v, Some e)"
  by (simp add: integer_as_def unsafeTransmutePtr_def integer_poisoned wrapT_wrapT
      canTransmute_def sizeEq_def)

lemma Number_poisoned: "err ctx = Some e \<Longrightarrow> Number T ctx v = Inr (ctx, wrapT T v, Some e)"
  using canTransmute_cases [of T] by (auto simp add: Number_def integer_as_poisoned)

lemma String_poisoned: "err ctx = Some e \<Longrightarrow> String ctx s = Inr (ctx, s, Some e)"
  by (simp add: String_def integer_poisoned)

lemma Bytes_poisoned: "err ctx = Some e \<Longrightarrow> Bytes ctx b = Inr (ctx, b, Some e)"
  by (simp add: Bytes_def integer_poisoned)

lemma Slice_poisoned: "err ctx = Some e \<Longrightarrow> Slice maxLen zero f ctx s = Inr (ctx, s, Some e)"
  by (simp add: Slice_def integer_poisoned)

lemma Map_poisoned: "err ctx = Some e \<Longrightarrow> Map zeroK zeroV fK fV ctx m = Inr (ctx, m, Some e)"
  by (simp add: Map_def integer_poisoned)

lemma Binary_poisoned: "err ctx = Some e \<Longrightarrow> Binary mb ub ctx v = Inr (ctx, v, Some e)"
  by (simp add: Binary_def integer_poisoned Raw_poisoned Abort_poisoned
      split: prod.splits option.splits)

subsection \<open>The two loops of the numeric codec\<close>

lemma shift3: "push_bit 3 (i::nat) = 8 * i"
  by (simp add: push_bit_eq_mult)

lemma fold_update_upt:
  "k \<le> length w \<Longrightarrow> fold (\<lambda>i w. w[i := g i]) [0..<k] w = map g [0..<k] @ drop k w"
proof (induction k)
  case 0
  then show ?case by simp
next
  case (Suc k)
  then have "k < length w" by simp
  then have "(map g [0..<k] @ drop k w)[k := g k] = map g [0..<k] @ g k # drop (Suc k) w"
    by (simp add: list_update_append Cons_nth_drop_Suc [symmetric])
  with Suc show ?case by simp
qed

lemma write_loop_eq: "write_loop v bs = le_bytes (length bs) v"
  by (simp add: write_loop_def le_bytes_def fold_update_upt shift3)

lemma le_bytes_0: "le_bytes 0 v = []"
  by (simp add: le_bytes_def)

lemma le_bytes_Suc: "le_bytes (Suc n) v = word_of_int v # le_bytes n (drop_bit 8 v)"
proof -
  have "[0..<Suc n] = 0 # map Suc [0..<n]"
    by (simp add: upt_conv_Cons map_Suc_upt del: upt_Suc)
  then show ?thesis
    by (simp add: le_bytes_def comp_def add.commute del: upt_Suc)
qed

lemma length_le_bytes: "length (le_bytes n v) = n"
  by (simp add: le_bytes_def)

lemma byte_bit: "bit (uint (word_of_int (drop_bit k v) :: byte)) j \<longleftrightarrow> j < 8 \<and> bit v (k + j)"
  by (auto simp add: bit_simps)

lemma or_step_unsigned:
  assumes "8 \<le> w"
  shows "take_bit w (take_bit (8 * i) v) OR
     take_bit w (push_bit (8 * i) (take_bit w (uint (word_of_int (drop_bit (8 * i) v) :: byte))))
   = take_bit w (take_bit (8 * Suc i) v)"
proof (rule bit_eqI)
  fix k
  show "bit (take_bit w (take_bit (8 * i) v) OR
     take_bit w (push_bit (8 * i) (take_bit w (uint (word_of_int (drop_bit (8 * i) v) :: byte))))) k
   = bit (take_bit w (take_bit (8 * Suc i) v)) k"
    using assms
    by (auto simp add: bit_or_iff bit_take_bit_iff bit_push_bit_iff byte_bit)
qed

lemma or_step_signed:
  assumes "7 \<le> m"
  shows "signed_take_bit m (take_bit (8 * i) v) OR
     signed_take_bit m (push_bit (8 * i) (signed_take_bit m (uint (word_of_int (drop_bit (8 * i) v) :: byte))))
   = signed_take_bit m (take_bit (8 * Suc i) v)"
proof (rule bit_eqI)
  fix k
  define j where "j = min m k"
  have j: "min m (j - 8 * i) = j - 8 * i"
    unfolding j_def by arith
  show "bit (signed_take_bit m (take_bit (8 * i) v) OR
     signed_take_bit m (push_bit (8 * i) (signed_take_bit m (uint (word_of_int (drop_bit (8 * i) v) :: byte))))) k
   = bit (signed_take_bit m (take_bit (8 * Suc i) v)) k"
    unfolding bit_or_iff bit_signed_take_bit_iff j_def [symmetric] bit_push_bit_iff bit_take_bit_iff j byte_bit
    by auto
qed

lemma read_step:
  "wrapT T (take_bit (8 * i) v) OR
     wrapT T (push_bit (8 * i) (wrapT T (uint (word_of_int (drop_bit (8 * i) v) :: byte))))
   = wrapT T (take_bit (8 * Suc i) v)"
proof -
  have "8 \<le> 8 * sizeOf T" "7 \<le> 8 * sizeOf T - 1"
    using sizeOf_pos [of T] by simp_all
  then show ?thesis
    unfolding wrapT_def using or_step_unsigned or_step_signed by simp
qed

lemma read_loop_le_bytes:
  "read_loop T i (le_bytes n (drop_bit (8 * i) v)) (wrapT T (take_bit (8 * i) v))
   = wrapT T (take_bit (8 * (i + n)) v)"
proof (induction n arbitrary: i)
  case 0
  then show ?case by (simp add: le_bytes_0)
next
  case (Suc n)
  have "read_loop T i (le_bytes (Suc n) (drop_bit (8 * i) v)) (wrapT T (take_bit (8 * i) v))
    = read_loop T (Suc i) (le_bytes n (drop_bit (8 * Suc i) v)) (wrapT T (take_bit (8 * Suc i) v))"
    by (simp add: le_bytes_Suc shift3 read_step)
  then show ?case using Suc.IH [of "Suc i"] by simp
qed

lemma read_loop_roundtrip: "read_loop T 0 (le_bytes (sizeOf T) v) 0 = wrapT T v"
  using read_loop_le_bytes [of T 0 "sizeOf T" v] by (simp add: wrapT_0 wrapT_take_bit)

subsection \<open>Byte windows\<close>

lemma Raw_De_short:
  "mode ctx = De \<Longrightarrow> err ctx = None \<Longrightarrow> int (length (bytes ctx)) < n \<Longrightarrow>
   Raw ctx n = Inr (ctx\<lparr>err := Some errUnexpectedEnd\<rparr>, [], Some errUnexpectedEnd)"
  by (simp add: Raw_def IsSerializer_iff Abort_def)

lemma Raw_De_ok:
  "mode ctx = De \<Longrightarrow> err ctx = None \<Longrightarrow> 0 \<le> n \<Longrightarrow> n \<le> int (length (bytes ctx)) \<Longrightarrow>
   Raw ctx n = Inr (ctx\<lparr>bytes := drop (nat n) (bytes ctx)\<rparr>, take (nat n) (bytes ctx), None)"
  by (simp add: Raw_def IsSerializer_iff)

lemma Raw_Ser:
  assumes "mode ctx = Ser" "err ctx = None" "0 \<le> n"
  shows "\<exists>ctx' w. Raw ctx n = Inr (ctx', w, None) \<and> length w = nat n \<and> appended ctx w ctx'"
proof (cases "n + int (length (bytes ctx)) > int (length (bytes ctx)) + int (length (spare ctx))")
  case True
  with assms show ?thesis
    by (simp add: Raw_def IsSerializer_iff Let_def appended_def copy_def)
next
  case False
  with assms show ?thesis
    by (simp add: Raw_def IsSerializer_iff Let_def appended_def)
qed

lemma store_window_appended:
  "appended ctx w ctx' \<Longrightarrow> length w' = length w \<Longrightarrow> appended ctx w' (store_window ctx' w')"
  by (simp add: appended_def store_window_def)

lemma integer_Ser:
  assumes "mode ctx = Ser" "err ctx = None"
  shows "\<exists>ctx'. integer T ctx v = Inr (ctx', v, None) \<and> appended ctx (le_bytes (sizeOf T) v) ctx'"
proof -
  obtain ctx' w where r: "Raw ctx (int (sizeOf T)) = Inr (ctx', w, None)"
    and w: "length w = sizeOf T" and a: "appended ctx w ctx'"
    using Raw_Ser [OF assms, of "int (sizeOf T)"] by auto
  have "mode ctx' = Ser" using a assms by (simp add: appended_def)
  then show ?thesis
    using r w store_window_appended [OF a, of "le_bytes (sizeOf T) v"]
    by (simp add: integer_def IsSerializer_iff write_loop_eq length_le_bytes)
qed

lemma integer_De:
  assumes "mode ctx = De" "err ctx = None" "bytes ctx = le_bytes (sizeOf T) v @ rest"
  shows "integer T ctx x = Inr (ctx\<lparr>bytes := rest\<rparr>, wrapT T v, None)"
  using assms
  by (simp add: integer_def Raw_De_ok length_le_bytes IsSerializer_iff read_loop_roundtrip)

section \<open>Byte window acquisition when deserializing\<close>

text \<open>
  C3, for a count that is not negative. An unpoisoned deserializer with fewer than \<open>n\<close>
  bytes left stores and returns \<open>errUnexpectedEnd\<close>, hands out no bytes and keeps its
  buffer; with at least \<open>n\<close> bytes left it returns the first \<open>n\<close> bytes and drops them
  from the buffer.
\<close>

theorem Raw_deserializer_window:
  assumes "IsDeserializer ctx" and "Error ctx = None" and "0 \<le> n"
  shows "(int (length (bytes ctx)) < n \<longrightarrow>
            Raw ctx n = Inr (ctx\<lparr>err := Some errUnexpectedEnd\<rparr>, [], Some errUnexpectedEnd)) \<and>
         (n \<le> int (length (bytes ctx)) \<longrightarrow>
            Raw ctx n = Inr (ctx\<lparr>bytes := drop (nat n) (bytes ctx)\<rparr>, take (nat n) (bytes ctx), None))"
  using assms by (simp add: IsDeserializer_iff Error_def Raw_De_short Raw_De_ok)

theorem Raw_deserializer_window_witness:
  "Raw (NewDeserializer (GoSlice [1, 2, 3] [])) 4
     = Inr (\<lparr>mode = De, bytes = [1, 2, 3], spare = [], err = Some errUnexpectedEnd\<rparr>, [],
            Some errUnexpectedEnd) \<and>
   Raw (NewDeserializer (GoSlice [1, 2, 3] [])) 2
     = Inr (\<lparr>mode = De, bytes = [3], spare = [], err = None\<rparr>, [1, 2], None)"
  using Raw_deserializer_window [of "NewDeserializer (GoSlice [1, 2, 3] [])" 4]
    Raw_deserializer_window [of "NewDeserializer (GoSlice [1, 2, 3] [])" 2]
  by (simp add: NewDeserializer_def IsDeserializer_iff Error_def)

text \<open>
  C3 as stated covers every \<open>n\<close>. For a negative \<open>n\<close> the deserializer always has at
  least \<open>n\<close> bytes left, and the slice expression \<^verbatim>\<open>ctx.bytes[:n]\<close> panics.
\<close>

theorem Raw_negative_count_counterexample:
  "IsDeserializer (NewDeserializer (GoSlice [1, 2, 3] [])) \<and>
   Error (NewDeserializer (GoSlice [1, 2, 3] [])) = None \<and>
   - 1 \<le> int (length (bytes (NewDeserializer (GoSlice [1, 2, 3] [])))) \<and>
   Raw (NewDeserializer (GoSlice [1, 2, 3] [])) (- 1) = Inl SliceBoundsOutOfRange"
  by (simp add: NewDeserializer_def IsDeserializer_iff Error_def Raw_def IsSerializer_iff)

section \<open>Poisoning\<close>

text \<open>
  C4. Once an error is stored, \<open>Abort\<close> with a non-nil error and every codec call leave
  it stored: \<open>Error\<close> returns the first error after each of them. \<open>Abort\<close> with a nil
  error panics, whatever the context.
\<close>

theorem monotonic_poisoning:
  assumes "Error ctx = Some e"
  shows "error_after (Abort ctx (Some x)) = Some (Some e) \<and>
         error_after (Raw ctx n) = Some (Some e) \<and>
         error_after (Number T ctx v) = Some (Some e) \<and>
         error_after (String ctx str) = Some (Some e) \<and>
         error_after (Bytes ctx b) = Some (Some e) \<and>
         error_after (Slice maxLen zero f ctx s) = Some (Some e) \<and>
         error_after (Map zeroK zeroV fK fV ctx m) = Some (Some e) \<and>
         error_after (Binary mb ub ctx val) = Some (Some e) \<and>
         Abort ctx None = Inl AbortNilError"
  using assms
  by (simp add: error_after_def Error_def Abort_poisoned Raw_poisoned Number_poisoned
      String_poisoned Bytes_poisoned Slice_poisoned Map_poisoned Binary_poisoned)
    (simp add: Abort_def)

theorem monotonic_poisoning_witness:
  "Error \<lparr>mode = De, bytes = [7], spare = [], err = Some errUnexpectedEnd\<rparr> = Some errUnexpectedEnd \<and>
   error_after (Abort \<lparr>mode = De, bytes = [7], spare = [], err = Some errUnexpectedEnd\<rparr>
                  (Some (ErrorValue ''later''))) = Some (Some errUnexpectedEnd) \<and>
   error_after (Raw \<lparr>mode = De, bytes = [7], spare = [], err = Some errUnexpectedEnd\<rparr> 1)
     = Some (Some errUnexpectedEnd) \<and>
   error_after (String \<lparr>mode = De, bytes = [7], spare = [], err = Some errUnexpectedEnd\<rparr> [])
     = Some (Some errUnexpectedEnd) \<and>
   Abort \<lparr>mode = De, bytes = [7], spare = [], err = Some errUnexpectedEnd\<rparr> None
     = Inl AbortNilError"
  using monotonic_poisoning [where ctx = "\<lparr>mode = De, bytes = [7], spare = [], err = Some errUnexpectedEnd\<rparr>"
      and e = errUnexpectedEnd and x = "ErrorValue ''later''" and n = 1 and str = "[]"
      and T = TInt and v = 0 and b = nil_slice and maxLen = 100 and zero = "0::int" and f = "Number TInt"
      and s = nil_slice and zeroK = "0::int" and zeroV = "0::int" and fK = "Number TInt"
      and fV = "Number TInt" and m = None and mb = "\<lambda>u::unit. ([], None)"
      and ub = "\<lambda>(u::unit) bs. (u, None)" and val = "()"]
  by (simp add: Error_def)

text \<open>
  C5. On a poisoned context every codec call returns the stored error, does not panic
  and leaves the context, hence its byte buffer, as it was, whether it serializes or
  deserializes.
\<close>

theorem poisoned_calls_are_noops:
  assumes "Error ctx = Some e"
  shows "Raw ctx n = Inr (ctx, [], Some e) \<and>
         Number T ctx v = Inr (ctx, wrapT T v, Some e) \<and>
         String ctx str = Inr (ctx, str, Some e) \<and>
         Bytes ctx b = Inr (ctx, b, Some e) \<and>
         Slice maxLen zero f ctx s = Inr (ctx, s, Some e) \<and>
         Map zeroK zeroV fK fV ctx m = Inr (ctx, m, Some e) \<and>
         Binary mb ub ctx val = Inr (ctx, val, Some e)"
  using assms
  by (simp add: Error_def Raw_poisoned Number_poisoned String_poisoned
      Bytes_poisoned Slice_poisoned Map_poisoned Binary_poisoned)

theorem poisoned_calls_are_noops_witness:
  "Error \<lparr>mode = Ser, bytes = [7], spare = [], err = Some (ErrorValue ''first'')\<rparr>
     = Some (ErrorValue ''first'') \<and>
   Raw \<lparr>mode = Ser, bytes = [7], spare = [], err = Some (ErrorValue ''first'')\<rparr> 2
     = Inr (\<lparr>mode = Ser, bytes = [7], spare = [], err = Some (ErrorValue ''first'')\<rparr>, [],
            Some (ErrorValue ''first'')) \<and>
   Number TUint16 \<lparr>mode = Ser, bytes = [7], spare = [], err = Some (ErrorValue ''first'')\<rparr> 5
     = Inr (\<lparr>mode = Ser, bytes = [7], spare = [], err = Some (ErrorValue ''first'')\<rparr>, 5,
            Some (ErrorValue ''first'')) \<and>
   String \<lparr>mode = Ser, bytes = [7], spare = [], err = Some (ErrorValue ''first'')\<rparr> [65]
     = Inr (\<lparr>mode = Ser, bytes = [7], spare = [], err = Some (ErrorValue ''first'')\<rparr>, [65],
            Some (ErrorValue ''first''))"
  using poisoned_calls_are_noops [where ctx = "\<lparr>mode = Ser, bytes = [7], spare = [], err = Some (ErrorValue ''first'')\<rparr>"
      and e = "ErrorValue ''first''" and n = 2 and T = TUint16 and v = 5 and str = "[65]"
      and b = nil_slice and maxLen = 100 and zero = "0::int" and f = "Number TInt"
      and s = nil_slice and zeroK = "0::int" and zeroV = "0::int" and fK = "Number TInt"
      and fV = "Number TInt" and m = None and mb = "\<lambda>u::unit. ([], None)"
      and ub = "\<lambda>(u::unit) bs. (u, None)" and val = "()"]
  by (simp add: Error_def wrapT_def)

section \<open>External binary values\<close>

text \<open>
  C2 fails on the code. Deserializing, \<open>Binary\<close> returns the error of
  \<^verbatim>\<open>UnmarshalBinary\<close> without passing it to \<open>Abort\<close>, unlike the serializing branch does
  with the error of \<^verbatim>\<open>MarshalBinary\<close>: the context stays unpoisoned.
\<close>

theorem Binary_unmarshal_error_not_stored:
  "Binary (\<lambda>v. ([], None)) (\<lambda>v bs. (v, Some (ErrorValue ''bad payload'')))
     (NewDeserializer (GoSlice [0, 0, 0, 0, 0, 0, 0, 0] [])) ()
   = Inr (\<lparr>mode = De, bytes = [], spare = [], err = None\<rparr>, (), Some (ErrorValue ''bad payload''))"
  by (simp add: Binary_def NewDeserializer_def IsSerializer_iff integer_def Raw_def wrapT_0)

section \<open>Round trips of the primitive codecs\<close>

lemma appended_trans:
  "appended a x b \<Longrightarrow> appended b y c \<Longrightarrow> appended a (x @ y) c"
  by (simp add: appended_def)


lemma le_byte_wrapT:
  assumes "i < sizeOf T"
  shows "(word_of_int (drop_bit (8 * i) (wrapT T v)) :: byte) = word_of_int (drop_bit (8 * i) v)"
proof (rule bit_eqI)
  fix j
  assume "possible_bit TYPE(byte) j"
  have "j < 8 \<Longrightarrow> min (8 * sizeOf T - Suc 0) (8 * i + j) = 8 * i + j"
    using assms by arith
  moreover have "j < 8 \<Longrightarrow> 8 * i + j < 8 * sizeOf T"
    using assms by arith
  ultimately show "bit (word_of_int (drop_bit (8 * i) (wrapT T v)) :: byte) j
      = bit (word_of_int (drop_bit (8 * i) v) :: byte) j"
    by (auto simp add: wrapT_def bit_word_of_int_iff bit_drop_bit_eq bit_take_bit_iff
        bit_signed_take_bit_iff)
qed

lemma le_bytes_wrapT: "le_bytes (sizeOf T) (wrapT T v) = le_bytes (sizeOf T) v"
  by (simp add: le_bytes_def le_byte_wrapT)

lemma le_bytes_wrapT': "sizeOf U = sizeOf T \<Longrightarrow> le_bytes (sizeOf T) (wrapT U v) = le_bytes (sizeOf T) v"
  using le_bytes_wrapT [of U v] by simp

lemma Number_integer_as: "Number T ctx v = integer_as T (uint_of T) ctx v"
  by (cases T) (simp_all add: Number_def uint_of_def canTransmute_def sizeEq_def alignCompat_def alignOf_def)

lemma sizeOf_uint_of: "sizeOf (uint_of T) = sizeOf T"
  by (cases T) (simp_all add: uint_of_def)

lemma canTransmute_uint_of: "canTransmute T (uint_of T)"
  by (cases T) (simp_all add: uint_of_def canTransmute_def sizeEq_def alignCompat_def alignOf_def)

lemma Number_Ser:
  assumes "mode ctx = Ser" "err ctx = None"
  shows "\<exists>ctx'. Number T ctx v = Inr (ctx', wrapT T v, None) \<and> appended ctx (le_bytes (sizeOf T) v) ctx'"
proof -
  obtain ctx' where "integer (uint_of T) ctx (wrapT (uint_of T) v) = Inr (ctx', wrapT (uint_of T) v, None)"
    and "appended ctx (le_bytes (sizeOf (uint_of T)) (wrapT (uint_of T) v)) ctx'"
    using integer_Ser [OF assms] by blast
  then show ?thesis
    by (simp add: Number_integer_as integer_as_def unsafeTransmutePtr_def canTransmute_uint_of
        sizeOf_uint_of wrapT_wrapT le_bytes_wrapT')
qed

lemma Number_De:
  assumes "mode d = De" "err d = None" "bytes d = le_bytes (sizeOf T) v @ rest"
  shows "Number T d x = Inr (d\<lparr>bytes := rest\<rparr>, wrapT T v, None)"
proof -
  have "integer (uint_of T) d (wrapT (uint_of T) x) = Inr (d\<lparr>bytes := rest\<rparr>, wrapT (uint_of T) v, None)"
    using assms by (intro integer_De) (simp_all add: sizeOf_uint_of)
  then show ?thesis
    by (simp add: Number_integer_as integer_as_def unsafeTransmutePtr_def canTransmute_uint_of
        sizeOf_uint_of wrapT_wrapT)
qed


lemma take_bit_split8:
  "take_bit (8 * Suc n) (v::int) = take_bit 8 v + 256 * take_bit (8 * n) (drop_bit 8 v)"
proof -
  have "take_bit (8 * Suc n) v = concat_bit 8 v (take_bit (8 * n) (drop_bit 8 v))"
    by (rule bit_eqI) (auto simp add: bit_concat_bit_iff bit_take_bit_iff bit_drop_bit_eq)
  then show ?thesis
    by (simp add: concat_bit_eq push_bit_eq_mult)
qed

lemma le_value_le_bytes: "le_value (le_bytes n v) = nat (take_bit (8 * n) v)"
proof (induction n arbitrary: v)
  case 0
  then show ?case by (simp add: le_bytes_0 le_value_def)
next
  case (Suc n)
  have "le_value (le_bytes (Suc n) v) = unat (word_of_int v :: byte) + 256 * le_value (le_bytes n (drop_bit 8 v))"
    by (simp add: le_bytes_Suc le_value_def)
  also have "\<dots> = nat (take_bit 8 v) + 256 * nat (take_bit (8 * n) (drop_bit 8 v))"
    by (simp add: Suc.IH unat_eq_nat_uint uint_word_of_int_eq)
  also have "\<dots> = nat (take_bit (8 * Suc n) v)"
    unfolding take_bit_split8 by (simp add: nat_add_distrib nat_mult_distrib)
  finally show ?case .
qed

lemma le_value_count: "n < 2 ^ 64 \<Longrightarrow> le_value (le_bytes 8 (int n)) = n"
  by (simp add: le_value_le_bytes take_bit_int_eq_self)

lemma in_range_TInt: "n < 2 ^ 63 \<Longrightarrow> in_range TInt (int n)"
  by (simp add: in_range_def)

lemma String_Ser:
  assumes "mode ctx = Ser" "err ctx = None"
  shows "\<exists>ctx'. String ctx s = Inr (ctx', s, None) \<and>
           appended ctx (le_bytes 8 (int (length s)) @ s) ctx'"
proof -
  obtain ctx1 where i: "integer TInt ctx (int (length s)) = Inr (ctx1, int (length s), None)"
    and a1: "appended ctx (le_bytes 8 (int (length s))) ctx1"
    using integer_Ser [OF assms, of TInt] by auto
  have m1: "mode ctx1 = Ser" "err ctx1 = None"
    using a1 assms by (simp_all add: appended_def)
  obtain ctx2 w where r: "Raw ctx1 (int (length s)) = Inr (ctx2, w, None)"
    and w: "length w = length s" and a2: "appended ctx1 w ctx2"
    using Raw_Ser [OF m1, of "int (length s)"] by auto
  have "mode ctx2 = Ser" using a2 m1 by (simp add: appended_def)
  moreover have "copy w s = s" using w by (simp add: copy_def)
  ultimately show ?thesis
    using i r appended_trans [OF a1 store_window_appended [OF a2, of s]] w
    by (simp add: String_def IsSerializer_iff)
qed

section \<open>Floating-point bit patterns\<close>

text \<open>
  C7. A \<^verbatim>\<open>float32\<close> or \<^verbatim>\<open>float64\<close> value is its bit pattern. Serializing it with
  \<open>Number\<close> appends the little-endian bytes of the pattern, and deserializing these
  bytes with \<open>Number\<close> returns the same pattern, bit for bit, whatever the pattern
  (infinities and NaN payloads included) and whatever the destination held.
\<close>

theorem float_bit_pattern_round_trip:
  assumes "T = TFloat32 \<or> T = TFloat64" and "in_range T v"
    and "IsSerializer ctx" and "Error ctx = None"
  shows "\<exists>ctx'. Number T ctx v = Inr (ctx', v, None) \<and>
           appended ctx (le_bytes (sizeOf T) v) ctx' \<and>
           (\<forall>d rest x. IsDeserializer d \<and> Error d = None \<and>
                bytes d = le_bytes (sizeOf T) v @ rest \<longrightarrow>
              Number T d x = Inr (d\<lparr>bytes := rest\<rparr>, v, None))"
  using assms Number_Ser [of ctx T v]
  by (auto simp add: IsSerializer_iff IsDeserializer_iff Error_def wrapT_in_range Number_De)

theorem float_bit_pattern_round_trip_witness:
  "in_range TFloat64 0x7FF0000000000000 \<and> in_range TFloat32 0x7FC00001 \<and>
   Number TFloat64 (NewDeserializer (GoSlice [0, 0, 0, 0, 0, 0, 0xF0, 0x7F] [])) 0
     = Inr (\<lparr>mode = De, bytes = [], spare = [], err = None\<rparr>, 0x7FF0000000000000, None) \<and>
   Number TFloat32 (NewDeserializer (GoSlice [1, 0, 0xC0, 0x7F] [])) 0
     = Inr (\<lparr>mode = De, bytes = [], spare = [], err = None\<rparr>, 0x7FC00001, None)"
proof -
  have r: "in_range TFloat64 0x7FF0000000000000" "in_range TFloat32 0x7FC00001"
    by (simp_all add: in_range_def)
  have s: "IsSerializer NewSerializer" "Error NewSerializer = None"
    by (simp_all add: IsSerializer_iff Error_def NewSerializer_def)
  have b64: "le_bytes (sizeOf TFloat64) 0x7FF0000000000000 = [0, 0, 0, 0, 0, 0, 0xF0, 0x7F]"
    by code_simp
  have b32: "le_bytes (sizeOf TFloat32) 0x7FC00001 = [1, 0, 0xC0, 0x7F]"
    by code_simp
  have "Number TFloat64 (NewDeserializer (GoSlice [0, 0, 0, 0, 0, 0, 0xF0, 0x7F] [])) 0
     = Inr (NewDeserializer (GoSlice [0, 0, 0, 0, 0, 0, 0xF0, 0x7F] [])\<lparr>bytes := []\<rparr>,
            0x7FF0000000000000, None)"
    using float_bit_pattern_round_trip [OF _ r(1) s] b64
    by (auto simp add: IsDeserializer_iff Error_def NewDeserializer_def)
  moreover have "Number TFloat32 (NewDeserializer (GoSlice [1, 0, 0xC0, 0x7F] [])) 0
     = Inr (NewDeserializer (GoSlice [1, 0, 0xC0, 0x7F] [])\<lparr>bytes := []\<rparr>, 0x7FC00001, None)"
    using float_bit_pattern_round_trip [OF _ r(2) s] b32
    by (auto simp add: IsDeserializer_iff Error_def NewDeserializer_def)
  ultimately show ?thesis
    using r by (simp add: NewDeserializer_def)
qed

section \<open>Length-prefixed values when serializing\<close>

lemma Raw_Ser_fill:
  assumes "mode ctx = Ser" "err ctx = None" "length s = nat n" "0 \<le> n"
  shows "\<exists>ctx' w. Raw ctx n = Inr (ctx', w, None) \<and> IsSerializer ctx' \<and>
           appended ctx s (store_window ctx' (copy w s))"
proof -
  obtain ctx' w where r: "Raw ctx n = Inr (ctx', w, None)"
    and w: "length w = nat n" and a: "appended ctx w ctx'"
    using Raw_Ser [OF assms(1,2,4)] by auto
  have "copy w s = s" using w assms by (simp add: copy_def)
  moreover have "mode ctx' = Ser" using a assms by (simp add: appended_def)
  ultimately show ?thesis
    using r store_window_appended [OF a, of s] w assms by (simp add: IsSerializer_iff)
qed

lemma Bytes_Ser:
  assumes "mode ctx = Ser" "err ctx = None"
  shows "\<exists>ctx'. Bytes ctx b = Inr (ctx', b, None) \<and>
           appended ctx (le_bytes 8 (len b) @ elems b) ctx'"
proof -
  obtain ctx1 where i: "integer TInt ctx (len b) = Inr (ctx1, len b, None)"
    and a1: "appended ctx (le_bytes 8 (len b)) ctx1"
    using integer_Ser [OF assms, of TInt] by auto
  have m1: "mode ctx1 = Ser" "err ctx1 = None"
    using a1 assms by (simp_all add: appended_def)
  obtain ctx2 w where r: "Raw ctx1 (len b) = Inr (ctx2, w, None)" and s: "IsSerializer ctx2"
    and a2: "appended ctx1 (elems b) (store_window ctx2 (copy w (elems b)))"
    using Raw_Ser_fill [OF m1, of "elems b" "len b"] by (auto simp add: len_def)
  show ?thesis
    using i r s appended_trans [OF a1 a2] by (simp add: Bytes_def)
qed

lemma Slice_Ser_prefix:
  assumes "mode ctx = Ser" "err ctx = None"
  shows "\<exists>ctx1. appended ctx (le_bytes 8 (len s)) ctx1 \<and>
           Slice maxLen zero f ctx s = Slice_loop f ctx1 s 0 (length (elems s))"
proof -
  obtain ctx1 where i: "integer TInt ctx (len s) = Inr (ctx1, len s, None)"
    and a1: "appended ctx (le_bytes 8 (len s)) ctx1"
    using integer_Ser [OF assms, of TInt] by auto
  then show ?thesis
    by (auto simp add: Slice_def len_def)
qed

lemma Map_Ser_prefix:
  assumes "mode ctx = Ser" "err ctx = None"
  shows "\<exists>ctx1. appended ctx (le_bytes 8 (int (length (entries m)))) ctx1 \<and>
           Map zeroK zeroV fK fV ctx m =
             (case Map_ser_loop fK fV ctx1 (entries m) of
                Inl p \<Rightarrow> Inl p
              | Inr (ctx2, e) \<Rightarrow> Inr (ctx2, m, e))"
proof -
  obtain ctx1 where i: "integer TInt ctx (int (length (entries m))) = Inr (ctx1, int (length (entries m)), None)"
    and a1: "appended ctx (le_bytes 8 (int (length (entries m)))) ctx1"
    using integer_Ser [OF assms, of TInt] by auto
  moreover have "IsSerializer ctx1" using a1 assms by (simp add: appended_def IsSerializer_iff)
  ultimately show ?thesis
    by (auto simp add: Map_def)
qed

lemma Binary_Ser:
  assumes "mode ctx = Ser" "err ctx = None" "mb val = (data, None)"
  shows "\<exists>ctx'. Binary mb ub ctx val = Inr (ctx', val, None) \<and>
           appended ctx (le_bytes 8 (int (length data)) @ data) ctx'"
proof -
  obtain ctx1 where i: "integer TInt ctx (int (length data)) = Inr (ctx1, int (length data), None)"
    and a1: "appended ctx (le_bytes 8 (int (length data))) ctx1"
    using integer_Ser [OF assms(1,2), of TInt] by auto
  have m1: "mode ctx1 = Ser" "err ctx1 = None"
    using a1 assms by (simp_all add: appended_def)
  obtain ctx2 w where r: "Raw ctx1 (int (length data)) = Inr (ctx2, w, None)"
    and a2: "appended ctx1 data (store_window ctx2 (copy w data))"
    using Raw_Ser_fill [OF m1, of data "int (length data)"] by auto
  show ?thesis
    using i r assms appended_trans [OF a1 a2] by (simp add: Binary_def IsSerializer_iff)
qed

lemma Binary_Ser_failure:
  assumes "mode ctx = Ser" "err ctx = None" "mb val = (data, Some e)"
  shows "Binary mb ub ctx val = Inr (ctx\<lparr>err := Some e\<rparr>, val, Some e)"
  using assms by (simp add: Binary_def IsSerializer_iff Abort_def)

text \<open>
  C8. Serializing with \<open>String\<close>, \<open>Bytes\<close>, \<open>Slice\<close>, \<open>Map\<close> or \<open>Binary\<close> first
  appends a prefix of exactly 8 bytes whose unsigned little-endian value is the byte or
  element count; the payload bytes, or the element codec calls, come after it. Counts are
  Go lengths, hence below \<open>2 ^ 63\<close>.
\<close>

theorem length_prefix_is_8_bytes_little_endian:
  assumes "IsSerializer ctx" and "Error ctx = None"
  shows "(length str < 2 ^ 63 \<longrightarrow>
            (\<exists>p ctx'. length p = 8 \<and> le_value p = length str \<and>
               String ctx str = Inr (ctx', str, None) \<and> appended ctx (p @ str) ctx')) \<and>
         (length (elems b) < 2 ^ 63 \<longrightarrow>
            (\<exists>p ctx'. length p = 8 \<and> le_value p = length (elems b) \<and>
               Bytes ctx b = Inr (ctx', b, None) \<and> appended ctx (p @ elems b) ctx')) \<and>
         (length (elems s) < 2 ^ 63 \<longrightarrow>
            (\<exists>p ctx1. length p = 8 \<and> le_value p = length (elems s) \<and>
               appended ctx p ctx1 \<and>
               Slice maxLen zero f ctx s = Slice_loop f ctx1 s 0 (length (elems s)))) \<and>
         (length (entries m) < 2 ^ 63 \<longrightarrow>
            (\<exists>p ctx1. length p = 8 \<and> le_value p = length (entries m) \<and>
               appended ctx p ctx1 \<and>
               Map zeroK zeroV fK fV ctx m =
                 (case Map_ser_loop fK fV ctx1 (entries m) of
                    Inl q \<Rightarrow> Inl q
                  | Inr (ctx2, e) \<Rightarrow> Inr (ctx2, m, e)))) \<and>
         (length (fst (mb val)) < 2 ^ 63 \<and> snd (mb val) = None \<longrightarrow>
            (\<exists>p ctx'. length p = 8 \<and> le_value p = length (fst (mb val)) \<and>
               Binary mb ub ctx val = Inr (ctx', val, None) \<and>
               appended ctx (p @ fst (mb val)) ctx'))"
proof -
  have c: "mode ctx = Ser" "err ctx = None"
    using assms by (simp_all add: IsSerializer_iff Error_def)
  have v: "\<And>n. n < 2 ^ 63 \<Longrightarrow> length (le_bytes 8 (int n)) = 8 \<and> le_value (le_bytes 8 (int n)) = n"
    by (simp add: length_le_bytes le_value_count)
  have 1: "length str < 2 ^ 63 \<longrightarrow>
            (\<exists>p ctx'. length p = 8 \<and> le_value p = length str \<and>
               String ctx str = Inr (ctx', str, None) \<and> appended ctx (p @ str) ctx')"
    using String_Ser [OF c, of str] v [of "length str"] by blast
  have 2: "length (elems b) < 2 ^ 63 \<longrightarrow>
            (\<exists>p ctx'. length p = 8 \<and> le_value p = length (elems b) \<and>
               Bytes ctx b = Inr (ctx', b, None) \<and> appended ctx (p @ elems b) ctx')"
    using Bytes_Ser [OF c, of b] v [of "length (elems b)"] unfolding len_def by blast
  have 3: "length (elems s) < 2 ^ 63 \<longrightarrow>
            (\<exists>p ctx1. length p = 8 \<and> le_value p = length (elems s) \<and>
               appended ctx p ctx1 \<and>
               Slice maxLen zero f ctx s = Slice_loop f ctx1 s 0 (length (elems s)))"
    using Slice_Ser_prefix [OF c, of s maxLen zero f] v [of "length (elems s)"] unfolding len_def by blast
  have 4: "length (entries m) < 2 ^ 63 \<longrightarrow>
            (\<exists>p ctx1. length p = 8 \<and> le_value p = length (entries m) \<and>
               appended ctx p ctx1 \<and>
               Map zeroK zeroV fK fV ctx m =
                 (case Map_ser_loop fK fV ctx1 (entries m) of
                    Inl q \<Rightarrow> Inl q
                  | Inr (ctx2, e) \<Rightarrow> Inr (ctx2, m, e)))"
    using Map_Ser_prefix [OF c, of m zeroK zeroV fK fV] v [of "length (entries m)"] by blast
  have 5: "length (fst (mb val)) < 2 ^ 63 \<and> snd (mb val) = None \<longrightarrow>
            (\<exists>p ctx'. length p = 8 \<and> le_value p = length (fst (mb val)) \<and>
               Binary mb ub ctx val = Inr (ctx', val, None) \<and>
               appended ctx (p @ fst (mb val)) ctx')"
    using Binary_Ser [OF c, of mb val "fst (mb val)" ub] v [of "length (fst (mb val))"]
    by (metis prod.collapse)
  from 1 2 3 4 5 show ?thesis by blast
qed


theorem length_prefix_is_8_bytes_little_endian_witness:
  "IsSerializer NewSerializer \<and> Error NewSerializer = None \<and>
   (\<exists>p ctx'. length p = 8 \<and> le_value p = length [65::byte] \<and>
      String NewSerializer [65] = Inr (ctx', [65], None) \<and> appended NewSerializer (p @ [65]) ctx') \<and>
   (\<exists>p ctx'. length p = 8 \<and> le_value p = length (elems (GoSlice [7, 8::byte] [])) \<and>
      Bytes NewSerializer (GoSlice [7, 8] []) = Inr (ctx', GoSlice [7, 8] [], None) \<and>
      appended NewSerializer (p @ elems (GoSlice [7, 8::byte] [])) ctx') \<and>
   (\<exists>p ctx'. length p = 8 \<and> le_value p = length (fst ([1, 2, 3::byte], None::error option)) \<and>
      Binary (\<lambda>u::unit. ([1, 2, 3], None)) (\<lambda>u bs. (u, None)) NewSerializer () = Inr (ctx', (), None) \<and>
      appended NewSerializer (p @ fst ([1, 2, 3::byte], None::error option)) ctx')"
proof -
  have h: "IsSerializer NewSerializer" "Error NewSerializer = None"
    by (simp_all add: IsSerializer_iff Error_def NewSerializer_def)
  have l: "length [65::byte] < 2 ^ 63" "length (elems (GoSlice [7, 8::byte] [])) < 2 ^ 63"
    "length (fst ([1, 2, 3::byte], None::error option)) < 2 ^ 63 \<and> snd ([1, 2, 3::byte], None::error option) = None"
    by simp_all
  show ?thesis
    using length_prefix_is_8_bytes_little_endian [OF h, where str = "[65]"
      and b = "GoSlice [7, 8] []" and s = "GoSlice [3, 4] []" and maxLen = 100 and zero = "0::int"
      and f = "Number TUint8" and m = "Some [([97], 5)]" and zeroK = "[]" and zeroV = "0::int"
      and fK = String and fV = "Number TInt" and mb = "\<lambda>u::unit. ([1, 2, 3], None)"
      and ub = "\<lambda>(u::unit) bs. (u, None)" and val = "()"] h l
    by blast
qed

section \<open>Deserializing byte slices\<close>

lemma copy_full: "length dst = length src \<Longrightarrow> copy dst src = src"
  by (simp add: copy_def)

lemma Bytes_De:
  assumes "mode d = De" "err d = None" "length payload < 2 ^ 63"
    and "bytes d = le_bytes 8 (int (length payload)) @ payload @ rest"
  shows "Bytes d b = Inr (d\<lparr>bytes := rest\<rparr>,
           (if cap b < int (length payload) then GoSlice payload []
            else GoSlice (take (length (elems b)) (payload @ drop (length payload) (elems b @ room b)))
                         (drop (length (elems b)) (payload @ drop (length payload) (elems b @ room b)))),
           None)"
proof -
  have i: "integer TInt d (len b) = Inr (d\<lparr>bytes := payload @ rest\<rparr>, int (length payload), None)"
    using integer_De [of d TInt "int (length payload)" "payload @ rest" "len b"] assms
    by (simp add: wrapT_in_range in_range_TInt)
  have r: "Raw (d\<lparr>bytes := payload @ rest\<rparr>) (int (length payload))
      = Inr (d\<lparr>bytes := rest\<rparr>, payload, None)"
    using assms by (simp add: Raw_De_ok)
  show ?thesis
  proof (cases "cap b < int (length payload)")
    case True
    then show ?thesis
      using i r assms(1)
      by (simp add: Bytes_def IsSerializer_iff Let_def copy_full)
  next
    case False
    then have "length payload \<le> length (elems b @ room b)"
      by (simp add: cap_def)
    then have "copy (take (length payload) (elems b @ room b)) payload = payload"
      by (intro copy_full) simp
    then show ?thesis
      using i r assms(1) False
      by (simp add: Bytes_def IsSerializer_iff Let_def del: take_append drop_append)
  qed
qed

lemma le_bytes_8_1: "le_bytes 8 1 = [1, 0, 0, 0, 0, 0, 0, 0]"
  by code_simp

lemma le_bytes_8_2: "le_bytes 8 2 = [2, 0, 0, 0, 0, 0, 0, 0]"
  by code_simp

text \<open>
  C9. A successful \<open>Bytes\<close> decode replaces the destination by a fresh slice holding the
  payload only when the destination's capacity is below the payload length. Otherwise the
  payload is copied into the destination's backing array and the destination keeps its
  length and capacity: a longer destination keeps its elements behind the payload, a
  shorter one shows only the first bytes of the payload. So its length differs from the
  length prefix whenever it did before the call.
\<close>

theorem Bytes_decode_keeps_length:
  assumes "IsDeserializer d" and "Error d = None" and "length payload < 2 ^ 63"
    and "bytes d = le_bytes 8 (int (length payload)) @ payload @ rest"
  shows "\<exists>b'. Bytes d b = Inr (d\<lparr>bytes := rest\<rparr>, b', None) \<and>
           (if cap b < int (length payload) then b' = GoSlice payload []
            else len b' = len b \<and> cap b' = cap b \<and>
                 elems b' = take (length (elems b)) payload @ drop (length payload) (elems b))"
proof -
  have c: "mode d = De" "err d = None"
    using assms by (simp_all add: IsDeserializer_iff Error_def)
  show ?thesis
    unfolding Bytes_De [OF c assms(3,4)]
    by (auto simp add: len_def cap_def)
qed

theorem Bytes_decode_keeps_length_witness:
  "(\<exists>b'. Bytes (NewDeserializer (GoSlice [1, 0, 0, 0, 0, 0, 0, 0, 7] [])) (GoSlice [9, 9] [])
          = Inr (\<lparr>mode = De, bytes = [], spare = [], err = None\<rparr>, b', None) \<and>
        len b' = 2 \<and> elems b' = [7, 9]) \<and>
   (\<exists>b'. Bytes (NewDeserializer (GoSlice [2, 0, 0, 0, 0, 0, 0, 0, 7, 8] [])) (GoSlice [9] [5, 5])
          = Inr (\<lparr>mode = De, bytes = [], spare = [], err = None\<rparr>, b', None) \<and>
        len b' = 1 \<and> elems b' = [7]) \<and>
   (\<exists>b'. Bytes (NewDeserializer (GoSlice [2, 0, 0, 0, 0, 0, 0, 0, 7, 8] [])) (GoSlice [9] [])
          = Inr (\<lparr>mode = De, bytes = [], spare = [], err = None\<rparr>, b', None) \<and>
        b' = GoSlice [7, 8] [])"
  using Bytes_decode_keeps_length [of "NewDeserializer (GoSlice [1, 0, 0, 0, 0, 0, 0, 0, 7] [])"
      "[7]" "[]" "GoSlice [9, 9] []"]
    Bytes_decode_keeps_length [of "NewDeserializer (GoSlice [2, 0, 0, 0, 0, 0, 0, 0, 7, 8] [])"
      "[7, 8]" "[]" "GoSlice [9] [5, 5]"]
    Bytes_decode_keeps_length [of "NewDeserializer (GoSlice [2, 0, 0, 0, 0, 0, 0, 0, 7, 8] [])"
      "[7, 8]" "[]" "GoSlice [9] []"]
  by (auto simp add: NewDeserializer_def IsDeserializer_iff Error_def le_bytes_8_1 le_bytes_8_2
      len_def cap_def)

section \<open>Deserializing slices\<close>

lemma Slice_De:
  assumes "mode d = De" "err d = None" "n < 2 ^ 63" "bytes d = le_bytes 8 (int n) @ rest"
  shows "Slice maxLen zero f d s =
           (if length (elems s) < n then
              (if maxLen < int n then Inl MakeSliceLenOutOfRange
               else Slice_loop f (d\<lparr>bytes := rest\<rparr>)
                      (GoSlice (elems s @ replicate (n - length (elems s)) zero) []) 0 n)
            else Slice_loop f (d\<lparr>bytes := rest\<rparr>) s 0 n)"
proof -
  have i: "integer TInt d (len s) = Inr (d\<lparr>bytes := rest\<rparr>, int n, None)"
    using integer_De [of d TInt "int n" rest "len s"] assms
    by (simp add: wrapT_in_range in_range_TInt)
  show ?thesis
    unfolding Slice_def i
    by (simp add: len_def make_slice_def copy_def)
qed

lemma Slice_loop_frame:
  "Slice_loop f c s i k = Inr (c', s', e) \<Longrightarrow>
   length (elems s') = length (elems s) \<and> room s' = room s \<and>
   take i (elems s') = take i (elems s) \<and> drop (i + k) (elems s') = drop (i + k) (elems s)"
proof (induction k arbitrary: c s i)
  case 0
  then show ?case by simp
next
  case (Suc k)
  from Suc.prems have i: "i < length (elems s)"
    by (simp split: if_splits)
  show ?case
  proof (cases "f c (elems s ! i)")
    case (Inl p)
    with Suc.prems i show ?thesis by simp
  next
    case (Inr r)
    obtain c1 x e1 where r: "r = (c1, x, e1)" by (cases r)
    show ?thesis
    proof (cases e1)
      case None
      with Suc.prems Inr r i
      have "Slice_loop f c1 (GoSlice ((elems s)[i := x]) (room s)) (Suc i) k = Inr (c', s', e)"
        by simp
      from Suc.IH [OF this]
      have l: "length (elems s') = length (elems s)" and m: "room s' = room s"
        and t: "take (Suc i) (elems s') = take (Suc i) ((elems s)[i := x])"
        and d: "drop (Suc i + k) (elems s') = drop (Suc i + k) ((elems s)[i := x])"
        by simp_all
      have "take i (take (Suc i) (elems s')) = take i (take (Suc i) ((elems s)[i := x]))"
        using t by simp
      then have "take i (elems s') = take i (elems s)"
        by (simp add: min_def)
      moreover have "drop (i + Suc k) (elems s') = drop (i + Suc k) (elems s)"
        using d by simp
      ultimately show ?thesis using l m by simp
    next
      case (Some a)
      with Suc.prems Inr r i have "s' = GoSlice ((elems s)[i := x]) (room s)"
        by simp
      then show ?thesis by simp
    qed
  qed
qed

lemma Slice_loop_returns:
  assumes "\<And>c x. \<exists>r. f c x = Inr r"
  shows "i + k \<le> length (elems s) \<Longrightarrow> \<exists>r. Slice_loop f c s i k = Inr r"
proof (induction k arbitrary: c s i)
  case 0
  then show ?case by simp
next
  case (Suc k)
  obtain c1 x e1 where r: "f c (elems s ! i) = Inr (c1, x, e1)"
    using assms [of c "elems s ! i"] by (metis prod_cases3)
  show ?case
  proof (cases e1)
    case None
    have "Suc i + k \<le> length (elems (GoSlice ((elems s)[i := x]) (room s)))"
      using Suc.prems by simp
    from Suc.IH [OF this, of c1] show ?thesis
      using r None Suc.prems by simp
  next
    case (Some a)
    then show ?thesis using r Suc.prems by simp
  qed
qed

lemma Number_u8_a: "Number TUint8 \<lparr>mode = De, bytes = [7], spare = [], err = None\<rparr> 4
      = Inr (\<lparr>mode = De, bytes = [], spare = [], err = None\<rparr>, 7, None)"
  by code_simp

lemma Number_u8_b: "Number TUint8 \<lparr>mode = De, bytes = [7, 8], spare = [], err = None\<rparr> 4
      = Inr (\<lparr>mode = De, bytes = [8], spare = [], err = None\<rparr>, 7, None)"
  by code_simp

lemma Number_u8_c: "Number TUint8 \<lparr>mode = De, bytes = [8], spare = [], err = None\<rparr> 0
      = Inr (\<lparr>mode = De, bytes = [], spare = [], err = None\<rparr>, 8, None)"
  by code_simp

text \<open>
  C10. When the decoded count \<open>n\<close> is at most the destination's length, \<open>Slice\<close> runs
  the element codec on positions \<open>0\<close> to \<open>n - 1\<close> of the destination itself and on no
  other: whenever it returns, with or without an error, the destination has its length,
  capacity and spare room as before and its elements from position \<open>n\<close> on are
  untouched. It returns whenever the element codec does.
\<close>

theorem Slice_decode_never_shrinks:
  assumes "IsDeserializer d" and "Error d = None"
    and "bytes d = le_bytes 8 (int n) @ rest"
    and "n \<le> length (elems s)" and "length (elems s) < 2 ^ 63"
  shows "Slice maxLen zero f d s = Slice_loop f (d\<lparr>bytes := rest\<rparr>) s 0 n \<and>
         (\<forall>d' s' e. Slice maxLen zero f d s = Inr (d', s', e) \<longrightarrow>
            len s' = len s \<and> cap s' = cap s \<and> room s' = room s \<and>
            drop n (elems s') = drop n (elems s)) \<and>
         ((\<forall>c x. \<exists>r. f c x = Inr r) \<longrightarrow> (\<exists>r. Slice maxLen zero f d s = Inr r))"
proof -
  have c: "mode d = De" "err d = None" "n < 2 ^ 63"
    using assms by (simp_all add: IsDeserializer_iff Error_def)
  have eq: "Slice maxLen zero f d s = Slice_loop f (d\<lparr>bytes := rest\<rparr>) s 0 n"
    using Slice_De [OF c assms(3), of maxLen zero f s] assms(4) by simp
  have "\<forall>d' s' e. Slice maxLen zero f d s = Inr (d', s', e) \<longrightarrow>
            len s' = len s \<and> cap s' = cap s \<and> room s' = room s \<and>
            drop n (elems s') = drop n (elems s)"
    unfolding eq using Slice_loop_frame [of f "d\<lparr>bytes := rest\<rparr>" s 0 n]
    by (simp add: len_def cap_def)
  moreover have "(\<forall>c x. \<exists>r. f c x = Inr r) \<longrightarrow> (\<exists>r. Slice maxLen zero f d s = Inr r)"
    unfolding eq using Slice_loop_returns [of f 0 n s "d\<lparr>bytes := rest\<rparr>"] assms(4)
    by simp
  ultimately show ?thesis using eq by blast
qed

theorem Slice_decode_never_shrinks_witness:
  "Slice 100 0 (Number TUint8) (NewDeserializer (GoSlice [1, 0, 0, 0, 0, 0, 0, 0, 7] [])) (GoSlice [4, 5, 6] [9])
     = Inr (\<lparr>mode = De, bytes = [], spare = [], err = None\<rparr>, GoSlice [7, 5, 6] [9], None)"
proof -
  have h: "IsDeserializer (NewDeserializer (GoSlice [1, 0, 0, 0, 0, 0, 0, 0, 7] []))"
    "Error (NewDeserializer (GoSlice [1, 0, 0, 0, 0, 0, 0, 0, 7] [])) = None"
    "bytes (NewDeserializer (GoSlice [1, 0, 0, 0, 0, 0, 0, 0, 7] [])) = le_bytes 8 (int (Suc 0)) @ [7]"
    "Suc 0 \<le> length (elems (GoSlice [4, 5, 6::int] [9]))"
    "length (elems (GoSlice [4, 5, 6::int] [9])) < 2 ^ 63"
    by (simp_all add: IsDeserializer_iff Error_def NewDeserializer_def le_bytes_8_1)
  have "Slice 100 0 (Number TUint8) (NewDeserializer (GoSlice [1, 0, 0, 0, 0, 0, 0, 0, 7] [])) (GoSlice [4, 5, 6] [9])
     = Slice_loop (Number TUint8) (NewDeserializer (GoSlice [1, 0, 0, 0, 0, 0, 0, 0, 7] [])\<lparr>bytes := [7]\<rparr>)
         (GoSlice [4, 5, 6] [9]) 0 (Suc 0)"
    using Slice_decode_never_shrinks [OF h, of 100 0 "Number TUint8"] by (rule conjunct1)
  then show ?thesis
    by (simp add: NewDeserializer_def Number_u8_a)
qed

lemma Slice_decode_count_out_of_range:
  assumes "mode d = De" "err d = None" "n < 2 ^ 63" "bytes d = le_bytes 8 (int n) @ rest"
    and "length (elems s) < n" and "maxLen < int n"
  shows "Slice maxLen zero f d s = Inl MakeSliceLenOutOfRange"
  using Slice_De [OF assms(1-4), of maxLen zero f s] assms(5,6) by simp

text \<open>
  C6, with the destination's length in place of its capacity, for a count that
  \<^verbatim>\<open>make\<close> accepts. When the decoded count \<open>n\<close> exceeds the length of the destination,
  whatever its capacity, and is at most \<open>maxLen\<close>, \<open>Slice\<close> replaces the destination by new
  storage of length and capacity \<open>n\<close> that starts with the old elements and holds zero
  values behind them, and then runs the element codec on positions \<open>0\<close> to \<open>n - 1\<close> in
  order.
\<close>

theorem Slice_decode_grows_on_length:
  assumes "IsDeserializer d" and "Error d = None"
    and "bytes d = le_bytes 8 (int n) @ rest"
    and "length (elems s) < n" and "n < 2 ^ 63" and "int n \<le> maxLen"
  shows "Slice maxLen zero f d s =
           Slice_loop f (d\<lparr>bytes := rest\<rparr>)
             (GoSlice (elems s @ replicate (n - length (elems s)) zero) []) 0 n \<and>
         (\<forall>d' s' e. Slice maxLen zero f d s = Inr (d', s', e) \<longrightarrow> len s' = int n \<and> cap s' = int n)"
proof -
  have c: "mode d = De" "err d = None"
    using assms by (simp_all add: IsDeserializer_iff Error_def)
  have eq: "Slice maxLen zero f d s =
           Slice_loop f (d\<lparr>bytes := rest\<rparr>)
             (GoSlice (elems s @ replicate (n - length (elems s)) zero) []) 0 n"
    unfolding Slice_De [OF c assms(5,3), of maxLen zero f s] using assms(4,6) by simp
  have "len s' = int n \<and> cap s' = int n"
    if "Slice maxLen zero f d s = Inr (d', s', e)" for d' s' e
  proof -
    from that have "Slice_loop f (d\<lparr>bytes := rest\<rparr>)
             (GoSlice (elems s @ replicate (n - length (elems s)) zero) []) 0 n = Inr (d', s', e)"
      by (simp only: eq)
    from Slice_loop_frame [OF this]
    have "length (elems s') = length (elems s @ replicate (n - length (elems s)) zero)"
      and "room s' = []"
      by simp_all
    then show ?thesis
      using assms(4) by (simp add: len_def cap_def)
  qed
  then show ?thesis using eq by blast
qed

theorem Slice_decode_grows_on_length_witness:
  "Slice 100 0 (Number TUint8) (NewDeserializer (GoSlice [2, 0, 0, 0, 0, 0, 0, 0, 7, 8] [])) (GoSlice [4] [])
     = Inr (\<lparr>mode = De, bytes = [], spare = [], err = None\<rparr>, GoSlice [7, 8] [], None)"
proof -
  have h: "IsDeserializer (NewDeserializer (GoSlice [2, 0, 0, 0, 0, 0, 0, 0, 7, 8] []))"
    "Error (NewDeserializer (GoSlice [2, 0, 0, 0, 0, 0, 0, 0, 7, 8] [])) = None"
    "bytes (NewDeserializer (GoSlice [2, 0, 0, 0, 0, 0, 0, 0, 7, 8] [])) = le_bytes 8 (int (Suc (Suc 0))) @ [7, 8]"
    "length (elems (GoSlice [4::int] [])) < Suc (Suc 0)"
    "Suc (Suc 0) < 2 ^ 63"
    "int (Suc (Suc 0)) \<le> 100"
    by (simp_all add: IsDeserializer_iff Error_def NewDeserializer_def le_bytes_8_2)
  have "Slice 100 0 (Number TUint8) (NewDeserializer (GoSlice [2, 0, 0, 0, 0, 0, 0, 0, 7, 8] [])) (GoSlice [4] [])
     = Slice_loop (Number TUint8) (NewDeserializer (GoSlice [2, 0, 0, 0, 0, 0, 0, 0, 7, 8] [])\<lparr>bytes := [7, 8]\<rparr>)
         (GoSlice (elems (GoSlice [4] []) @ replicate (Suc (Suc 0) - length (elems (GoSlice [4::int] []))) 0) [])
         0 (Suc (Suc 0))"
    using Slice_decode_grows_on_length [OF h, of 0 "Number TUint8"] by (rule conjunct1)
  then show ?thesis
    by (simp add: NewDeserializer_def Number_u8_b Number_u8_c)
qed

text \<open>
  C6 as stated names the capacity as the condition. A destination of length 0 and
  capacity 2 can hold the single decoded element, and still gets new storage of capacity 1.
\<close>

theorem Slice_reallocates_within_capacity_counterexample:
  "len (GoSlice [] [5, 5::int]) < 1 \<and> 1 \<le> cap (GoSlice [] [5, 5::int]) \<and>
   Slice 100 0 (Number TUint8) (NewDeserializer (GoSlice [1, 0, 0, 0, 0, 0, 0, 0, 7] [])) (GoSlice [] [5, 5])
     = Inr (\<lparr>mode = De, bytes = [], spare = [], err = None\<rparr>, GoSlice [7] [], None) \<and>
   cap (GoSlice [7::int] []) = 1"
proof -
  have "Slice 100 0 (Number TUint8) (NewDeserializer (GoSlice [1, 0, 0, 0, 0, 0, 0, 0, 7] [])) (GoSlice [] [5, 5])
     = Inr (\<lparr>mode = De, bytes = [], spare = [], err = None\<rparr>, GoSlice [7] [], None)"
    by code_simp
  then show ?thesis
    by (simp add: len_def cap_def)
qed

section \<open>Round trips of composite values\<close>

































end
